theory Spec2Isabelle
  imports
    Complex_Main
    "HOL-Library.Char_ord"
    "HOL-Library.List_Lexorder"
    "HOL-Library.AList"
    "HOL-Library.Multiset"
    "HOL-Library.Word"
begin

section \<open>Shared data model: the scratch directory and its files\<close>

text \<open>
  Every component of visneb communicates through one scratch directory (\<open>tmpdir\<close>).
  The directory is modelled as an association list from file names (relative to
  \<open>tmpdir\<close>) to file contents; the order of the list is the order in which the file
  system enumerates the entries (\<open>iterdir\<close>, \<open>glob\<close>), which the code must not rely on.
  Writing a file replaces the entry of that name, or adds one.

  Characters are the code points below 256 of the decoded text; a text file is the
  string of its characters.
\<close>

datatype error =
    ReadError             \<comment> \<open>\<open>ase.io.read\<close> raised\<close>
  | FileNotFoundError     \<comment> \<open>\<open>open\<close> / \<open>Image.open\<close> on a missing name\<close>
  | UnidentifiedImageError \<comment> \<open>\<open>Image.open\<close> on something that is not a raster\<close>
  | ValueError            \<comment> \<open>\<open>max()\<close> of an empty sequence\<close>
  | RuntimeError string   \<comment> \<open>\<open>raise RuntimeError(msg)\<close>\<close>
  | OSError               \<comment> \<open>an I/O failure of the operating system\<close>
  | UnicodeDecodeError    \<comment> \<open>a file that is not text opened in text mode\<close>

type_synonym pixel = "8 word list"

record image =
  mode :: string
  width :: nat
  height :: nat
  pix :: "nat \<Rightarrow> nat \<Rightarrow> pixel"

datatype 'a content =
    Structure string 'a   \<comment> \<open>format name and the atoms written by \<open>ase.io.write\<close>\<close>
  | Text string
  | Raster image

type_synonym 'a dir = "(string \<times> 'a content) list"

definition write_file :: "string \<Rightarrow> 'a content \<Rightarrow> 'a dir \<Rightarrow> 'a dir" where
  "write_file name f d = AList.update name f d"

section \<open>Decimal formatting\<close>

definition digit_char :: "nat \<Rightarrow> char" where
  "digit_char n = char_of (48 + n)"

text \<open>\<open>str(n)\<close> for a non-negative integer.\<close>

function str_nat :: "nat \<Rightarrow> string" where
  "str_nat n = (if n < 10 then [digit_char n] else str_nat (n div 10) @ [digit_char (n mod 10)])"
  by pat_completeness auto
termination
  by (relation "measure id") auto

declare str_nat.simps [simp del]

text \<open>\<open>f"{n:0wd}"\<close> and Tcl's \<open>format "%0wd"\<close>: zero padding up to a minimum width.\<close>

definition format_0d :: "nat \<Rightarrow> nat \<Rightarrow> string" where
  "format_0d w n = replicate (w - length (str_nat n)) (CHR ''0'') @ str_nat n"

text \<open>Reading a decimal string back (used to show that formatted names are distinct).\<close>

definition digit_val :: "char \<Rightarrow> nat" where
  "digit_val c = of_char c - 48"

definition dec_val :: "string \<Rightarrow> nat" where
  "dec_val s = foldl (\<lambda>a c. 10 * a + digit_val c) 0 s"

section \<open>Frame selector and exporter: \<open>utils.extractMEPImages\<close>\<close>

text \<open>Python's \<open>xs[start:]\<close> for an arbitrary integer \<open>start\<close>.\<close>

definition slice_from :: "'a list \<Rightarrow> int \<Rightarrow> 'a list" where
  "slice_from xs start =
     (let n = int (length xs);
          s = (if start < 0 then max (n + start) 0 else min start n)
      in drop (nat s) xs)"

definition path_POSCAR :: "nat \<Rightarrow> string" where
  "path_POSCAR i = ''image_'' @ format_0d 3 i @ ''.POSCAR''"

definition path_XYZ :: "nat \<Rightarrow> string" where
  "path_XYZ i = ''image_'' @ format_0d 3 i @ ''.xyz''"

text \<open>
  The body of \<open>for i, atoms in enumerate(neb)\<close>: the state is the directory and the two
  lists of names built so far.
\<close>

fun extract_loop ::
  "nat \<Rightarrow> 'a list \<Rightarrow> 'a dir \<Rightarrow> string list \<Rightarrow> string list \<Rightarrow> 'a dir \<times> string list \<times> string list"
where
  "extract_loop i [] d poscars xyzs = (d, poscars, xyzs)"
| "extract_loop i (atoms # rest) d poscars xyzs =
     (let d1 = write_file (path_POSCAR i) (Structure ''vasp'' atoms) d;
          d2 = write_file (path_XYZ i) (Structure ''xyz'' atoms) d1
      in extract_loop (Suc i) rest d2 (poscars @ [path_POSCAR i]) (xyzs @ [path_XYZ i]))"

text \<open>
  \<open>traj\<close> is what \<open>read(traj, ":")\<close> yields: \<open>None\<close> when the read raises, otherwise
  all frames of the trajectory. \<open>nimages\<close> is any integer (\<open>argparse\<close> with \<open>type=int\<close>).
\<close>

definition extractMEPImages ::
  "'a list option \<Rightarrow> int \<Rightarrow> 'a dir \<Rightarrow> error + ((string list \<times> string list) \<times> 'a dir)"
where
  "extractMEPImages traj nimages tmpdir =
     (case traj of
        None \<Rightarrow> Inl ReadError
      | Some images \<Rightarrow>
          (let neb = slice_from images (- nimages);
               (d, poscars, xyzs) = extract_loop 0 neb tmpdir [] []
           in Inr ((poscars, xyzs), d)))"

section \<open>Text-mode file input and output\<close>

text \<open>
  \<open>open(path)\<close> and \<open>open(path, "w")\<close> open the file in text mode with \<open>newline=None\<close>.
  On reading, universal newlines are in force: \<open>\r\n\<close> and a lone \<open>\r\<close> are both handed to
  the program as \<open>\n\<close>. On writing, every \<open>\n\<close> is replaced by \<open>os.linesep\<close>, which
  is \<open>\n\<close> on POSIX and \<open>\r\n\<close> on Windows; it is a parameter of the model.
\<close>

definition CR :: char where
  "CR = CHR 0x0D"

definition LF :: char where
  "LF = CHR 0x0A"

fun universal_newlines :: "string \<Rightarrow> string" where
  "universal_newlines [] = []"
| "universal_newlines [c] = [if c = CR then LF else c]"
| "universal_newlines (c # d # cs) =
     (if c = CR \<and> d = LF then LF # universal_newlines cs
      else if c = CR then LF # universal_newlines (d # cs)
      else c # universal_newlines (d # cs))"

definition translate_newlines :: "string \<Rightarrow> string \<Rightarrow> string" where
  "translate_newlines linesep text = concat (map (\<lambda>c. if c = LF then linesep else [c]) text)"

text \<open>
  \<open>for line in f\<close>: the text is cut after every \<open>\n\<close>; each line keeps its terminator and
  a last line without terminator is yielded as it is. \<open>cur\<close> is the line being read.
\<close>

fun lines_from :: "string \<Rightarrow> string \<Rightarrow> string list" where
  "lines_from cur [] = (if cur = [] then [] else [cur])"
| "lines_from cur (c # cs) =
     (if c = LF then (cur @ [c]) # lines_from [] cs else lines_from (cur @ [c]) cs)"

definition readlines :: "string \<Rightarrow> string list" where
  "readlines text = lines_from [] text"

text \<open>
  \<open>str.strip()\<close> removes leading and trailing whitespace; among the code points below
  256, \<open>str.isspace\<close> holds for 9-13, 28-32, 133 and 160.
\<close>

definition isspace :: "char \<Rightarrow> bool" where
  "isspace c = (of_char c \<in> {9, 10, 11, 12, 13, 28, 29, 30, 31, 32, 133, 160 :: nat})"

definition strip :: "string \<Rightarrow> string" where
  "strip s = rev (dropWhile isspace (rev (dropWhile isspace s)))"

definition startswith :: "string \<Rightarrow> string \<Rightarrow> bool" where
  "startswith s p = (take (length p) s = p)"

section \<open>Style sanitizer: \<open>visneb_vmd.sanitizeStyleVMD\<close>\<close>

definition banned_prefixes :: "string list" where
  "banned_prefixes = [''mol new'', ''mol delrep'']"

text \<open>\<open>any(stripped.startswith(p) for p in banned_prefixes)\<close> for \<open>stripped = line.strip()\<close>.\<close>

definition banned :: "string \<Rightarrow> bool" where
  "banned line = (let stripped = strip line in list_ex (\<lambda>p. startswith stripped p) banned_prefixes)"

text \<open>The \<open>for line in f\<close> loop, with the list \<open>cleaned\<close> as its state.\<close>

fun sanitize_loop :: "string list \<Rightarrow> string list \<Rightarrow> string list" where
  "sanitize_loop [] cleaned = cleaned"
| "sanitize_loop (line # rest) cleaned =
     (if banned line then sanitize_loop rest cleaned
      else sanitize_loop rest (cleaned @ [line]))"

text \<open>
  \<open>f.writelines(cleaned)\<close> on a file opened with mode \<open>"w"\<close>: every line goes through the
  newline translation and is appended to what the file holds. \<open>room\<close> is the number of
  characters the device still accepts before a write fails (\<open>None\<close>: no failure). When
  the loop is through and a failure is pending, leaving the \<open>with\<close> block (flush and
  close) raises. The result tells whether an exception was raised, and what the file holds.
\<close>

fun writelines :: "string \<Rightarrow> nat option \<Rightarrow> string list \<Rightarrow> string \<Rightarrow> bool \<times> string" where
  "writelines linesep room [] written = (room \<noteq> None, written)"
| "writelines linesep room (line # rest) written =
     (let chars = translate_newlines linesep line
      in case room of
           None \<Rightarrow> writelines linesep None rest (written @ chars)
         | Some k \<Rightarrow>
             if length chars \<le> k
             then writelines linesep (Some (k - length chars)) rest (written @ chars)
             else (True, written @ take k chars))"

text \<open>
  The environment may make an I/O operation fail at each of the places where the function
  touches the file:

    \<^item> \<open>ReadFault\<close>: \<open>open(style_path)\<close> or reading from it raises;
    \<^item> \<open>OpenWriteFault\<close>: the file has been read, and \<open>open(style_path, "w")\<close> raises; the
      file has not been emptied;
    \<^item> \<open>WriteFault k\<close>: the file has been opened with mode \<open>"w"\<close>, which empties it, and
      writing raises when \<open>k\<close> characters have reached the file.

  No temporary file is used. The result is the exception raised, if any, and the directory
  afterwards.
\<close>

datatype fault = NoFault | ReadFault | OpenWriteFault | WriteFault nat

definition sanitizeStyleVMD ::
  "string \<Rightarrow> fault \<Rightarrow> 'a dir \<Rightarrow> string \<Rightarrow> error option \<times> 'a dir"
where
  "sanitizeStyleVMD linesep fault d style_path =
     (case map_of d style_path of
        None \<Rightarrow> (Some FileNotFoundError, d)
      | Some (Text bytes) \<Rightarrow>
          if fault = ReadFault then (Some OSError, d)
          else
            (let cleaned = sanitize_loop (readlines (universal_newlines bytes)) []
             in if fault = OpenWriteFault then (Some OSError, d)
                else
                  (let room = (case fault of WriteFault k \<Rightarrow> Some k | _ \<Rightarrow> None);
                       (raised, written) = writelines linesep room cleaned []
                   in (if raised then Some OSError else None,
                       write_file style_path (Text written) d)))
      | Some _ \<Rightarrow> (Some UnicodeDecodeError, d))"

text \<open>
  Auxiliary notion for the proofs: a list of lines as \<open>readlines\<close> produces them. No line
  is empty, a line feed occurs only as the last character of a line, and every line but
  the last one ends with a line feed.
\<close>

fun well_lined :: "string list \<Rightarrow> bool" where
  "well_lined [] = True"
| "well_lined [l] = (l \<noteq> [] \<and> LF \<notin> set (butlast l))"
| "well_lined (l # m # ls) = (l \<noteq> [] \<and> LF \<notin> set (butlast l) \<and> last l = LF \<and> well_lined (m # ls))"

section \<open>Render script synthesizer: \<open>visneb_vmd.createVMDRenderScript\<close>\<close>

text \<open>The two fixed parts of the script, character by character as in the source.\<close>

definition preamble :: string where
  \<open>preamble = concat
     [''\<newline>'',
      ''            display projection Orthographic\<newline>'',
      ''            axes location Off\<newline>'',
      ''            color Display Background gray\<newline>'',
      ''\<newline>'',
      ''            light 0 on\<newline>'',
      ''            light 1 on\<newline>'',
      ''            light 2 on\<newline>'',
      ''            light 3 off\<newline>'',
      ''            '']\<close>

definition loop_script :: string where
  \<open>loop_script = concat
     [''\<newline>'',
      ''            set i 0\<newline>'',
      ''            foreach f $files {\<newline>'',
      ''\<newline>'',
      ''                puts "Rendering $f"\<newline>'',
      ''\<newline>'',
      ''                mol new $f type xyz waitfor all\<newline>'',
      ''\<newline>'',
      ''                # Apply saved visual style\<newline>'',
      ''                source style.vmd\<newline>'',
      ''\<newline>'',
      ''                # Render\<newline>'',
      ''                set out [format "frame_%02d.tga" $i]\<newline>'',
      ''                render TachyonInternal $out\<newline>'',
      ''\<newline>'',
      ''                # Cleanup\<newline>'',
      ''                mol delete top\<newline>'',
      ''                incr i\<newline>'',
      ''            }\<newline>'',
      ''            quit\<newline>'',
      ''            '']\<close>

text \<open>\<open>for i, file in enumerate(xyzs): f.write(f"    {file}\n")\<close>, with the text written so far as state.\<close>

fun write_files :: "string list \<Rightarrow> string \<Rightarrow> string" where
  "write_files [] buf = buf"
| "write_files (file # rest) buf = write_files rest (buf @ ''    '' @ file @ ''\<newline>'')"

definition render_tcl :: "string list \<Rightarrow> string" where
  "render_tcl xyzs = write_files xyzs (preamble @ ''set files {\<newline>'') @ ''}\<newline>'' @ loop_script"

text \<open>The script is written in text mode to \<open>render.tcl\<close> in the scratch directory; its name is returned.\<close>

definition createVMDRenderScript :: "string \<Rightarrow> 'a dir \<Rightarrow> string list \<Rightarrow> string \<times> 'a dir" where
  "createVMDRenderScript linesep tmpdir xyzs =
     (''render.tcl'', write_file ''render.tcl'' (Text (translate_newlines linesep (render_tcl xyzs))) tmpdir)"

subsection \<open>What the generated script does when VMD runs it\<close>

text \<open>
  The loop is Tcl code held in a string of the source; it is embedded like the Python
  code. A command that Tcl hands to VMD is the list of its words after substitution.

  \<open>set files {...}\<close> stores the text between the braces unchanged, and \<open>foreach f $files\<close>
  reads that text as a Tcl list: elements are separated by white space. Braces, double
  quotes and backslashes have a meaning of their own in a Tcl list (and unbalanced braces
  change how the script itself is read); a text that contains one of them is outside this
  model, and \<open>tcl_list\<close> is \<open>None\<close> for it.
\<close>

type_synonym tcl_command = "string list"

definition tcl_space :: "char \<Rightarrow> bool" where
  "tcl_space c = (of_char c \<in> {9, 10, 11, 12, 13, 32 :: nat})"

definition tcl_special :: "char \<Rightarrow> bool" where
  \<open>tcl_special c = (c \<in> set ''{}"'' \<or> of_char c = (92 :: nat))\<close>

fun split_words :: "string \<Rightarrow> string \<Rightarrow> string list" where
  "split_words cur [] = (if cur = [] then [] else [cur])"
| "split_words cur (c # cs) =
     (if tcl_space c then (if cur = [] then split_words [] cs else cur # split_words [] cs)
      else split_words (cur @ [c]) cs)"

definition tcl_list :: "string \<Rightarrow> string list option" where
  "tcl_list s = (if list_ex tcl_special s then None else Some (split_words [] s))"

text \<open>
  The body of \<open>foreach f $files\<close> with the counter \<open>i\<close> (\<open>set i 0\<close> before the loop,
  \<open>incr i\<close> at the end of the body) and \<open>set out [format "frame_%02d.tga" $i]\<close>. The
  sourced style file is taken not to assign the variables of the script.
\<close>

fun foreach_files :: "nat \<Rightarrow> string list \<Rightarrow> tcl_command list" where
  "foreach_files i [] = []"
| "foreach_files i (f # files) =
     (let out = ''frame_'' @ format_0d 2 i @ ''.tga'' in
      [[''puts'', ''Rendering '' @ f],
       [''mol'', ''new'', f, ''type'', ''xyz'', ''waitfor'', ''all''],
       [''source'', ''style.vmd''],
       [''render'', ''TachyonInternal'', out],
       [''mol'', ''delete'', ''top'']]
      @ foreach_files (Suc i) files)"

definition preamble_commands :: "tcl_command list" where
  "preamble_commands =
     [[''display'', ''projection'', ''Orthographic''],
      [''axes'', ''location'', ''Off''],
      [''color'', ''Display'', ''Background'', ''gray''],
      [''light'', ''0'', ''on''],
      [''light'', ''1'', ''on''],
      [''light'', ''2'', ''on''],
      [''light'', ''3'', ''off'']]"

text \<open>
  The commands of a run of the script generated for \<open>xyzs\<close>. The text between the braces
  of \<open>set files\<close> is the line break written with the opening brace, followed by the lines
  of the file names.
\<close>

definition files_text :: "string list \<Rightarrow> string" where
  "files_text xyzs = write_files xyzs ''\<newline>''"

definition run_render_tcl :: "string list \<Rightarrow> tcl_command list option" where
  "run_render_tcl xyzs =
     (case tcl_list (files_text xyzs) of
        None \<Rightarrow> None
      | Some files \<Rightarrow> Some (preamble_commands @ foreach_files 0 files @ [[''quit'']]))"

text \<open>Observations on a run: the files loaded and the raster files rendered, in order.\<close>

fun loaded_file :: "tcl_command \<Rightarrow> string option" where
  "loaded_file (c # n # f # rest) = (if c = ''mol'' \<and> n = ''new'' then Some f else None)"
| "loaded_file _ = None"

fun rendered_file :: "tcl_command \<Rightarrow> string option" where
  "rendered_file [c, t, out] = (if c = ''render'' then Some out else None)"
| "rendered_file _ = None"

definition loads :: "tcl_command list \<Rightarrow> string list" where
  "loads cmds = List.map_filter loaded_file cmds"

definition renders :: "tcl_command list \<Rightarrow> string list" where
  "renders cmds = List.map_filter rendered_file cmds"

section \<open>Energy profile synthesizer: \<open>visneb_chart.bandPlotChart\<close>\<close>










section \<open>Raster images: the operations of PIL that the code uses\<close>





section \<open>Format normalization: \<open>utils.tga2png\<close>\<close>








section \<open>Montage compositing: \<open>utils.createPNGmontage\<close>\<close>








section \<open>Properties of decimal formatting and of exported names\<close>

lemma digit_val_digit_char: "n < 10 \<Longrightarrow> digit_val (digit_char n) = n"
  by (simp add: digit_val_def digit_char_def)

lemma dec_val_snoc: "dec_val (s @ [c]) = 10 * dec_val s + digit_val c"
  by (simp add: dec_val_def)

lemma dec_val_str_nat: "dec_val (str_nat n) = n"
proof (induction n rule: str_nat.induct)
  case (1 n)
  show ?case
  proof (cases "n < 10")
    case True
    then show ?thesis
      by (subst str_nat.simps) (simp add: dec_val_def digit_val_digit_char)
  next
    case False
    with 1 have "dec_val (str_nat (n div 10)) = n div 10" by simp
    with False show ?thesis
      by (subst str_nat.simps) (simp add: dec_val_snoc digit_val_digit_char)
  qed
qed

lemma dec_val_zeros: "dec_val (replicate k (CHR ''0'') @ s) = dec_val s"
proof -
  have "foldl (\<lambda>a c. 10 * a + digit_val c) 0 (replicate k (CHR ''0'')) = 0"
    by (induction k) (simp_all add: digit_val_def)
  then show ?thesis by (simp add: dec_val_def)
qed

lemma dec_val_format_0d: "dec_val (format_0d w n) = n"
  by (simp add: format_0d_def dec_val_zeros dec_val_str_nat)

lemma format_0d_inj: "format_0d w n = format_0d w m \<Longrightarrow> n = m"
  by (metis dec_val_format_0d)

lemma path_POSCAR_inj: "path_POSCAR i = path_POSCAR j \<Longrightarrow> i = j"
  unfolding path_POSCAR_def by (simp add: format_0d_inj)

lemma path_XYZ_inj: "path_XYZ i = path_XYZ j \<Longrightarrow> i = j"
  unfolding path_XYZ_def by (simp add: format_0d_inj)

lemma last_path_POSCAR: "last (path_POSCAR i) = CHR ''R''"
  by (simp add: path_POSCAR_def)

lemma last_path_XYZ: "last (path_XYZ i) = CHR ''z''"
  by (simp add: path_XYZ_def)

lemma path_POSCAR_neq_XYZ: "path_POSCAR i \<noteq> path_XYZ j"
proof
  assume "path_POSCAR i = path_XYZ j"
  then have "last (path_POSCAR i) = last (path_XYZ j)" by simp
  then show False by (simp add: last_path_POSCAR last_path_XYZ)
qed

section \<open>Properties of \<open>extractMEPImages\<close>\<close>

lemma map_of_write_file: "map_of (write_file name f d) = (map_of d)(name \<mapsto> f)"
  by (simp add: write_file_def update_conv')

lemma extract_loop_names:
  "snd (extract_loop i neb d poscars xyzs) =
     (poscars @ map path_POSCAR [i ..< i + length neb], xyzs @ map path_XYZ [i ..< i + length neb])"
proof (induction neb arbitrary: i d poscars xyzs)
  case Nil
  then show ?case by simp
next
  case (Cons a neb)
  show ?case
    by (simp add: Let_def Cons.IH upt_conv_Cons del: upt_Suc)
qed

lemma extract_loop_other:
  "\<forall>j. i \<le> j \<and> j < i + length neb \<longrightarrow> name \<noteq> path_POSCAR j \<and> name \<noteq> path_XYZ j \<Longrightarrow>
   map_of (fst (extract_loop i neb d poscars xyzs)) name = map_of d name"
proof (induction neb arbitrary: i d poscars xyzs)
  case Nil
  then show ?case by simp
next
  case (Cons a neb)
  have "name \<noteq> path_POSCAR i" "name \<noteq> path_XYZ i"
    using Cons.prems by auto
  moreover have "\<forall>j. Suc i \<le> j \<and> j < Suc i + length neb \<longrightarrow> name \<noteq> path_POSCAR j \<and> name \<noteq> path_XYZ j"
    using Cons.prems by auto
  ultimately show ?case
    by (simp add: Let_def Cons.IH map_of_write_file)
qed

lemma extract_loop_files:
  "k < length neb \<Longrightarrow>
   map_of (fst (extract_loop i neb d poscars xyzs)) (path_POSCAR (i + k)) = Some (Structure ''vasp'' (neb ! k)) \<and>
   map_of (fst (extract_loop i neb d poscars xyzs)) (path_XYZ (i + k)) = Some (Structure ''xyz'' (neb ! k))"
proof (induction neb arbitrary: i k d poscars xyzs)
  case Nil
  then show ?case by simp
next
  case (Cons a neb)
  show ?case
  proof (cases k)
    case 0
    have "\<forall>j. Suc i \<le> j \<and> j < Suc i + length neb \<longrightarrow> path_POSCAR i \<noteq> path_POSCAR j \<and> path_POSCAR i \<noteq> path_XYZ j"
      using path_POSCAR_inj path_POSCAR_neq_XYZ by fastforce
    moreover have "\<forall>j. Suc i \<le> j \<and> j < Suc i + length neb \<longrightarrow> path_XYZ i \<noteq> path_POSCAR j \<and> path_XYZ i \<noteq> path_XYZ j"
      using path_XYZ_inj path_POSCAR_neq_XYZ by (metis Suc_n_not_le_n)
    ultimately show ?thesis
      using 0 path_POSCAR_neq_XYZ[of i i]
      by (simp add: Let_def extract_loop_other map_of_write_file)
  next
    case (Suc k')
    with Cons.prems have "k' < length neb" by simp
    from Cons.IH[OF this, of "Suc i"] Suc show ?thesis
      by (simp add: Let_def)
  qed
qed


lemma distinct_paths: "distinct (map path_POSCAR [0..<n] @ map path_XYZ [0..<n])"
proof -
  have "inj_on path_POSCAR A" "inj_on path_XYZ A" for A
    by (auto intro!: inj_onI dest: path_POSCAR_inj path_XYZ_inj)
  then show ?thesis
    using path_POSCAR_neq_XYZ by (auto simp: distinct_map)
qed

lemma extract_loop_lookups:
  "map (map_of (fst (extract_loop 0 neb d [] []))) (map path_POSCAR [0..<length neb]) =
     map (\<lambda>a. Some (Structure ''vasp'' a)) neb \<and>
   map (map_of (fst (extract_loop 0 neb d [] []))) (map path_XYZ [0..<length neb]) =
     map (\<lambda>a. Some (Structure ''xyz'' a)) neb"
  using extract_loop_files[of _ neb 0 d "[]" "[]"]
  by (auto intro!: nth_equalityI)

lemma extractMEPImages_eq:
  "extractMEPImages (Some images) nimages tmpdir =
     Inr ((map path_POSCAR [0..<length (slice_from images (- nimages))],
           map path_XYZ [0..<length (slice_from images (- nimages))]),
          fst (extract_loop 0 (slice_from images (- nimages)) tmpdir [] []))"
proof -
  obtain d ps xs where e: "extract_loop 0 (slice_from images (- nimages)) tmpdir [] [] = (d, ps, xs)"
    by (cases "extract_loop 0 (slice_from images (- nimages)) tmpdir [] []") auto
  from extract_loop_names[of 0 "slice_from images (- nimages)" tmpdir "[]" "[]"] e
  show ?thesis
    by (simp add: extractMEPImages_def Let_def)
qed

text \<open>
  Claim C10. With a requested frame count of 0 the slice \<open>images[-0:]\<close> is the whole
  trajectory: for a trajectory of length \<open>L\<close> the export returns \<open>L\<close> lattice-format
  names and \<open>L\<close> coordinate-format names (indices \<open>0 .. L-1\<close>), these \<open>2 * L\<close> names
  are pairwise distinct, and after the call each of them holds the frame of its index.
\<close>

theorem extractMEPImages_zero_exports_all:
  "\<exists>d. extractMEPImages (Some images) 0 tmpdir =
         Inr ((map path_POSCAR [0..<length images], map path_XYZ [0..<length images]), d) \<and>
       map (map_of d) (map path_POSCAR [0..<length images]) = map (\<lambda>a. Some (Structure ''vasp'' a)) images \<and>
       map (map_of d) (map path_XYZ [0..<length images]) = map (\<lambda>a. Some (Structure ''xyz'' a)) images \<and>
       distinct (map path_POSCAR [0..<length images] @ map path_XYZ [0..<length images]) \<and>
       length (map path_POSCAR [0..<length images] @ map path_XYZ [0..<length images]) = 2 * length images"
proof -
  have s: "slice_from images 0 = images"
    by (simp add: slice_from_def)
  show ?thesis
    using extractMEPImages_eq[of images 0 tmpdir] extract_loop_lookups[of images tmpdir]
      distinct_paths[of "length images"]
    by (simp add: s)
qed

theorem extractMEPImages_zero_exports_all_witness:
  "\<exists>d. extractMEPImages (Some [10::nat, 20, 30]) 0 [] =
         Inr (([''image_000.POSCAR'', ''image_001.POSCAR'', ''image_002.POSCAR''],
               [''image_000.xyz'', ''image_001.xyz'', ''image_002.xyz'']), d) \<and>
       map (map_of d) [''image_000.POSCAR'', ''image_001.POSCAR'', ''image_002.POSCAR''] =
         [Some (Structure ''vasp'' 10), Some (Structure ''vasp'' 20), Some (Structure ''vasp'' 30)]"
proof -
  have p: "map path_POSCAR [0..<length [10::nat, 20, 30]] = [''image_000.POSCAR'', ''image_001.POSCAR'', ''image_002.POSCAR'']"
    by code_simp
  have x: "map path_XYZ [0..<length [10::nat, 20, 30]] = [''image_000.xyz'', ''image_001.xyz'', ''image_002.xyz'']"
    by code_simp
  show ?thesis
    using extractMEPImages_zero_exports_all[of "[10::nat, 20, 30]" "[]"]
    unfolding p x by auto
qed

text \<open>
  Claim C1 (as amended). The export never fails on the frame count. If \<open>N\<close> exceeds
  the number of frames, every frame of the trajectory is exported (indices
  \<open>0 .. L-1\<close>); if \<open>1 \<le> N \<le> L\<close>, the last \<open>N\<close> frames are exported under the indices
  \<open>0 .. N-1\<close>, each in both formats.
\<close>

theorem extractMEPImages_selection:
  "(int (length images) < nimages \<longrightarrow>
      (\<exists>d. extractMEPImages (Some images) nimages tmpdir =
              Inr ((map path_POSCAR [0..<length images], map path_XYZ [0..<length images]), d) \<and>
            map (map_of d) (map path_POSCAR [0..<length images]) = map (\<lambda>a. Some (Structure ''vasp'' a)) images \<and>
            map (map_of d) (map path_XYZ [0..<length images]) = map (\<lambda>a. Some (Structure ''xyz'' a)) images)) \<and>
   (1 \<le> nimages \<and> nimages \<le> int (length images) \<longrightarrow>
      (\<exists>d. extractMEPImages (Some images) nimages tmpdir =
              Inr ((map path_POSCAR [0..<nat nimages], map path_XYZ [0..<nat nimages]), d) \<and>
            map (map_of d) (map path_POSCAR [0..<nat nimages]) =
              map (\<lambda>a. Some (Structure ''vasp'' a)) (drop (length images - nat nimages) images) \<and>
            map (map_of d) (map path_XYZ [0..<nat nimages]) =
              map (\<lambda>a. Some (Structure ''xyz'' a)) (drop (length images - nat nimages) images)))"
proof (intro conjI impI)
  assume a: "int (length images) < nimages"
  then have s: "slice_from images (- nimages) = images"
    by (simp add: slice_from_def Let_def max_def)
  show "\<exists>d. extractMEPImages (Some images) nimages tmpdir =
              Inr ((map path_POSCAR [0..<length images], map path_XYZ [0..<length images]), d) \<and>
            map (map_of d) (map path_POSCAR [0..<length images]) = map (\<lambda>a. Some (Structure ''vasp'' a)) images \<and>
            map (map_of d) (map path_XYZ [0..<length images]) = map (\<lambda>a. Some (Structure ''xyz'' a)) images"
    using extractMEPImages_eq[of images nimages tmpdir] extract_loop_lookups[of images tmpdir]
    by (simp add: s)
next
  assume a: "1 \<le> nimages \<and> nimages \<le> int (length images)"
  then have s: "slice_from images (- nimages) = drop (length images - nat nimages) images"
    by (simp add: slice_from_def Let_def max_def nat_diff_distrib)
  have l: "length (drop (length images - nat nimages) images) = nat nimages"
    using a by (simp, linarith)
  show "\<exists>d. extractMEPImages (Some images) nimages tmpdir =
              Inr ((map path_POSCAR [0..<nat nimages], map path_XYZ [0..<nat nimages]), d) \<and>
            map (map_of d) (map path_POSCAR [0..<nat nimages]) =
              map (\<lambda>a. Some (Structure ''vasp'' a)) (drop (length images - nat nimages) images) \<and>
            map (map_of d) (map path_XYZ [0..<nat nimages]) =
              map (\<lambda>a. Some (Structure ''xyz'' a)) (drop (length images - nat nimages) images)"
    using extractMEPImages_eq[of images nimages tmpdir]
      extract_loop_lookups[of "drop (length images - nat nimages) images" tmpdir]
    unfolding s l by simp
qed

theorem extractMEPImages_selection_witness:
  "int (length [10::nat, 20]) < 3 \<and>
   (\<exists>d. extractMEPImages (Some [10::nat, 20]) 3 [] =
      Inr (([''image_000.POSCAR'', ''image_001.POSCAR''], [''image_000.xyz'', ''image_001.xyz'']), d)) \<and>
   1 \<le> (2::int) \<and> 2 \<le> int (length [10::nat, 20, 30]) \<and>
   (\<exists>d. extractMEPImages (Some [10::nat, 20, 30]) 2 [] =
      Inr (([''image_000.POSCAR'', ''image_001.POSCAR''], [''image_000.xyz'', ''image_001.xyz'']), d) \<and>
      map (map_of d) [''image_000.POSCAR'', ''image_001.POSCAR''] =
        [Some (Structure ''vasp'' 20), Some (Structure ''vasp'' 30)])"
proof -
  have p: "map path_POSCAR [0..<length [10::nat, 20]] = [''image_000.POSCAR'', ''image_001.POSCAR'']"
    "map path_POSCAR [0..<nat 2] = [''image_000.POSCAR'', ''image_001.POSCAR'']"
    by code_simp+
  have x: "map path_XYZ [0..<length [10::nat, 20]] = [''image_000.xyz'', ''image_001.xyz'']"
    "map path_XYZ [0..<nat 2] = [''image_000.xyz'', ''image_001.xyz'']"
    by code_simp+
  have a: "\<exists>d. extractMEPImages (Some [10::nat, 20]) 3 [] =
      Inr (([''image_000.POSCAR'', ''image_001.POSCAR''], [''image_000.xyz'', ''image_001.xyz'']), d)"
    using extractMEPImages_selection[of "[10::nat, 20]" 3 "[]"] unfolding p x by auto
  have b: "\<exists>d. extractMEPImages (Some [10::nat, 20, 30]) 2 [] =
      Inr (([''image_000.POSCAR'', ''image_001.POSCAR''], [''image_000.xyz'', ''image_001.xyz'']), d) \<and>
      map (map_of d) [''image_000.POSCAR'', ''image_001.POSCAR''] =
        [Some (Structure ''vasp'' 20), Some (Structure ''vasp'' 30)]"
    using extractMEPImages_selection[of "[10::nat, 20, 30]" 2 "[]"] unfolding p x by auto
  show ?thesis using a b by simp
qed

text \<open>
  The claim as it was stated fails: with two frames and \<open>N = 3\<close> the call returns
  normally, having exported both frames, instead of failing.
\<close>

theorem extractMEPImages_excess_counterexample:
  "extractMEPImages (Some [10::nat, 20]) 3 [] =
     Inr (([''image_000.POSCAR'', ''image_001.POSCAR''], [''image_000.xyz'', ''image_001.xyz'']),
          [(''image_000.POSCAR'', Structure ''vasp'' 10), (''image_000.xyz'', Structure ''xyz'' 10),
           (''image_001.POSCAR'', Structure ''vasp'' 20), (''image_001.xyz'', Structure ''xyz'' 20)])"
proof -
  have n: "path_POSCAR 0 = ''image_000.POSCAR''" "path_POSCAR (Suc 0) = ''image_001.POSCAR''"
    "path_XYZ 0 = ''image_000.xyz''" "path_XYZ (Suc 0) = ''image_001.xyz''"
    by code_simp+
  show ?thesis
    by (simp add: extractMEPImages_def slice_from_def write_file_def n)
qed

section \<open>Properties of text-mode I/O and of \<open>sanitizeStyleVMD\<close>\<close>

lemma sanitize_loop_filter:
  "sanitize_loop ls cleaned = cleaned @ filter (\<lambda>line. \<not> banned line) ls"
  by (induction ls arbitrary: cleaned) simp_all

lemma lines_from_no_LF:
  "LF \<notin> set body \<Longrightarrow> lines_from cur body = (if cur @ body = [] then [] else [cur @ body])"
  by (induction body arbitrary: cur) auto

lemma lines_from_line:
  "LF \<notin> set body \<Longrightarrow> lines_from cur (body @ LF # rest) = (cur @ body @ [LF]) # lines_from [] rest"
  by (induction body arbitrary: cur) auto

lemma well_lined_Cons:
  "l \<noteq> [] \<Longrightarrow> LF \<notin> set (butlast l) \<Longrightarrow> last l = LF \<Longrightarrow> well_lined ls \<Longrightarrow> well_lined (l # ls)"
  by (cases ls) simp_all

lemma well_lined_tail: "well_lined (l # ls) \<Longrightarrow> well_lined ls"
  by (cases ls) simp_all

lemma well_lined_lines_from:
  "LF \<notin> set cur \<Longrightarrow> well_lined (lines_from cur t)"
proof (induction t arbitrary: cur)
  case Nil
  then show ?case by (auto dest: in_set_butlastD)
next
  case (Cons c cs)
  show ?case
  proof (cases "c = LF")
    case True
    have "well_lined (lines_from [] cs)" using Cons.IH[of "[]"] by simp
    then show ?thesis
      using True Cons.prems by (simp add: well_lined_Cons)
  next
    case False
    then show ?thesis using Cons by simp
  qed
qed

lemma well_lined_readlines: "well_lined (readlines t)"
  by (simp add: readlines_def well_lined_lines_from)

lemma well_lined_filter: "well_lined ls \<Longrightarrow> well_lined (filter P ls)"
proof (induction ls rule: well_lined.induct)
  case 1
  then show ?case by simp
next
  case (2 l)
  then show ?case by simp
next
  case (3 l m ls)
  then have "well_lined (filter P (m # ls))" by simp
  with 3 show ?case
    by (cases "P l") (simp_all add: well_lined_Cons)
qed

lemma readlines_concat: "well_lined ls \<Longrightarrow> readlines (concat ls) = ls"
proof (induction ls rule: well_lined.induct)
  case 1
  then show ?case by (simp add: readlines_def)
next
  case (2 l)
  then have ne: "l \<noteq> []" and nb: "LF \<notin> set (butlast l)" by simp_all
  show ?case
  proof (cases "last l = LF")
    case True
    with ne have l: "butlast l @ [LF] = l" by (metis append_butlast_last_id)
    have "lines_from [] (butlast l @ LF # []) = ([] @ butlast l @ [LF]) # lines_from [] []"
      using lines_from_line[OF nb] by blast
    then show ?thesis by (simp add: readlines_def l)
  next
    case False
    with ne nb have "LF \<notin> set l"
      by (metis append_butlast_last_id in_set_conv_decomp_last last_snoc rotate1.simps(2) set_ConsD set_rotate1)
    then show ?thesis using ne by (simp add: readlines_def lines_from_no_LF)
  qed
next
  case (3 l m ls)
  then have ne: "l \<noteq> []" and nb: "LF \<notin> set (butlast l)" and la: "last l = LF"
    and ih: "readlines (concat (m # ls)) = m # ls" by simp_all
  from ne la have l: "l = butlast l @ [LF]" by (metis append_butlast_last_id)
  have "lines_from [] (butlast l @ LF # concat (m # ls)) = ([] @ butlast l @ [LF]) # lines_from [] (concat (m # ls))"
    using lines_from_line[OF nb] by blast
  then have "lines_from [] (l @ concat (m # ls)) = l # lines_from [] (concat (m # ls))"
    using l by (metis append_Cons append_Nil append_assoc)
  with ih show ?case by (simp add: readlines_def)
qed

lemma concat_lines_from: "concat (lines_from cur t) = cur @ t"
  by (induction t arbitrary: cur) auto

lemma concat_readlines: "concat (readlines t) = t"
  by (simp add: readlines_def concat_lines_from)

lemma universal_newlines_id: "CR \<notin> set t \<Longrightarrow> universal_newlines t = t"
  by (induction t rule: universal_newlines.induct) auto

lemma universal_newlines_no_CR: "CR \<notin> set (universal_newlines t)"
  by (induction t rule: universal_newlines.induct) (auto simp: CR_def LF_def)

lemma translate_newlines_LF: "translate_newlines [LF] t = t"
  by (induction t) (auto simp: translate_newlines_def)

lemma translate_newlines_Cons:
  "translate_newlines linesep (c # cs) = (if c = LF then linesep else [c]) @ translate_newlines linesep cs"
  by (simp add: translate_newlines_def)

lemma universal_translate_CRLF:
  "CR \<notin> set t \<Longrightarrow> universal_newlines (translate_newlines [CR, LF] t) = t"
proof (induction t)
  case Nil
  then show ?case by (simp add: translate_newlines_def)
next
  case (Cons c cs)
  then have ih: "universal_newlines (translate_newlines [CR, LF] cs) = cs" and c: "c \<noteq> CR" by auto
  show ?case
  proof (cases "c = LF")
    case True
    then show ?thesis using ih by (simp add: translate_newlines_Cons)
  next
    case False
    show ?thesis
    proof (cases "translate_newlines [CR, LF] cs")
      case Nil
      then show ?thesis using False c ih by (simp add: translate_newlines_Cons)
    next
      case (Cons e es)
      then show ?thesis using False c ih by (simp add: translate_newlines_Cons)
    qed
  qed
qed

lemma universal_translate:
  "linesep = [LF] \<or> linesep = [CR, LF] \<Longrightarrow> CR \<notin> set t \<Longrightarrow>
   universal_newlines (translate_newlines linesep t) = t"
  by (auto simp: translate_newlines_LF universal_newlines_id universal_translate_CRLF)

lemma no_CR_cleaned:
  "CR \<notin> set (concat (filter P (readlines (universal_newlines bytes))))"
proof -
  have "set (concat (filter P (readlines (universal_newlines bytes)))) \<subseteq>
        set (concat (readlines (universal_newlines bytes)))"
    by auto
  then show ?thesis
    using universal_newlines_no_CR[of bytes] by (auto simp only: concat_readlines)
qed

lemma write_file_twice: "write_file p x (write_file p y d) = write_file p x d"
  by (simp add: write_file_def)

lemma translate_newlines_append:
  "translate_newlines linesep (s @ t) = translate_newlines linesep s @ translate_newlines linesep t"
  by (simp add: translate_newlines_def)

lemma writelines_None:
  "writelines linesep None ls written = (False, written @ translate_newlines linesep (concat ls))"
  by (induction ls arbitrary: written) (simp_all add: translate_newlines_append translate_newlines_def)

lemma writelines_Some:
  "writelines linesep (Some k) ls written =
     (True, written @ take k (translate_newlines linesep (concat ls)))"
proof (induction ls arbitrary: k written)
  case Nil
  show ?case by (simp add: translate_newlines_def)
next
  case (Cons l ls)
  show ?case
  proof (cases "length (translate_newlines linesep l) \<le> k")
    case True
    then show ?thesis by (simp add: Cons translate_newlines_append Let_def)
  next
    case False
    then show ?thesis by (simp add: translate_newlines_append Let_def)
  qed
qed

lemma sanitizeStyleVMD_NoFault:
  "map_of d style_path = Some (Text bytes) \<Longrightarrow>
   sanitizeStyleVMD linesep NoFault d style_path =
     (None, write_file style_path
        (Text (translate_newlines linesep
           (concat (filter (\<lambda>line. \<not> banned line) (readlines (universal_newlines bytes)))))) d)"
  by (simp add: sanitizeStyleVMD_def sanitize_loop_filter writelines_None)

lemma sanitizeStyleVMD_unfold:
  assumes "map_of d style_path = Some (Text bytes)"
    and "out = translate_newlines linesep (concat (sanitize_loop (readlines (universal_newlines bytes)) []))"
  shows "sanitizeStyleVMD linesep NoFault d style_path = (None, write_file style_path (Text out) d)"
    and "sanitizeStyleVMD linesep (WriteFault k) d style_path =
           (Some OSError, write_file style_path (Text (take k out)) d)"
  using assms by (simp_all add: sanitizeStyleVMD_def Let_def writelines_None writelines_Some)

text \<open>
  Claim C2 (as amended). Sanitization drops a line if and only if its whitespace-trimmed
  text starts with one of the banned prefixes (\<open>mol new\<close>, \<open>mol delrep\<close>); the other lines
  are written back in their original order, and the lines of the written text are exactly
  the kept lines. The text of a kept line is unchanged, but its terminator goes through
  text-mode I/O: \<open>\r\n\<close> and \<open>\r\<close> are read as \<open>\n\<close>, and \<open>\n\<close> is written as the platform's
  line separator. When the file contains no carriage return and the separator is \<open>\n\<close>, the
  kept lines are passed through character by character.
\<close>

theorem sanitizeStyleVMD_drops_exactly_banned:
  assumes "map_of d style_path = Some (Text bytes)"
    and "kept = filter (\<lambda>line. \<not> list_ex (\<lambda>p. startswith (strip line) p) banned_prefixes)
                  (readlines (universal_newlines bytes))"
  shows "sanitizeStyleVMD linesep NoFault d style_path =
           (None, write_file style_path (Text (translate_newlines linesep (concat kept))) d) \<and>
         readlines (concat kept) = kept \<and>
         (CR \<notin> set bytes \<and> linesep = [LF] \<longrightarrow>
            concat (readlines bytes) = bytes \<and>
            kept = filter (\<lambda>line. \<not> list_ex (\<lambda>p. startswith (strip line) p) banned_prefixes)
                     (readlines bytes) \<and>
            translate_newlines linesep (concat kept) = concat kept)"
proof -
  have k: "kept = filter (\<lambda>line. \<not> banned line) (readlines (universal_newlines bytes))"
    using assms(2) by (simp add: banned_def)
  have 1: "sanitizeStyleVMD linesep NoFault d style_path =
           (None, write_file style_path (Text (translate_newlines linesep (concat kept))) d)"
    using sanitizeStyleVMD_NoFault[OF assms(1)] k by simp
  have 2: "readlines (concat kept) = kept"
    unfolding k by (rule readlines_concat) (simp add: well_lined_filter well_lined_readlines)
  show ?thesis
    using 1 2 assms(2)
    by (simp add: universal_newlines_id translate_newlines_LF concat_readlines)
qed

theorem sanitizeStyleVMD_drops_exactly_banned_witness:
  "map_of [(''style.vmd'', Text ''mol new x\<newline>  axes off\<newline>   mol delrep 0 top\<newline>end'' :: nat content)] ''style.vmd'' =
     Some (Text ''mol new x\<newline>  axes off\<newline>   mol delrep 0 top\<newline>end'') \<and>
   CR \<notin> set ''mol new x\<newline>  axes off\<newline>   mol delrep 0 top\<newline>end'' \<and>
   sanitizeStyleVMD [LF] NoFault
     [(''style.vmd'', Text ''mol new x\<newline>  axes off\<newline>   mol delrep 0 top\<newline>end'' :: nat content)] ''style.vmd'' =
     (None, [(''style.vmd'', Text ''  axes off\<newline>end'')])"
proof -
  have k: "[''  axes off\<newline>'', ''end''] =
      filter (\<lambda>line. \<not> list_ex (\<lambda>p. startswith (strip line) p) banned_prefixes)
        (readlines (universal_newlines ''mol new x\<newline>  axes off\<newline>   mol delrep 0 top\<newline>end''))"
    by code_simp
  have m: "map_of [(''style.vmd'', Text ''mol new x\<newline>  axes off\<newline>   mol delrep 0 top\<newline>end'' :: nat content)] ''style.vmd'' =
     Some (Text ''mol new x\<newline>  axes off\<newline>   mol delrep 0 top\<newline>end'')"
    by simp
  have c: "CR \<notin> set ''mol new x\<newline>  axes off\<newline>   mol delrep 0 top\<newline>end''"
    by (simp add: CR_def)
  have t: "translate_newlines [LF] ''  axes off\<newline>end'' = ''  axes off\<newline>end''"
    by (rule translate_newlines_LF)
  have "sanitizeStyleVMD [LF] NoFault
     [(''style.vmd'', Text ''mol new x\<newline>  axes off\<newline>   mol delrep 0 top\<newline>end'' :: nat content)] ''style.vmd'' =
     (None, write_file ''style.vmd'' (Text (translate_newlines [LF] (concat [''  axes off\<newline>'', ''end''])))
        [(''style.vmd'', Text ''mol new x\<newline>  axes off\<newline>   mol delrep 0 top\<newline>end'')])"
    using sanitizeStyleVMD_drops_exactly_banned[OF m k, of "[LF]"] by (rule conjunct1)
  then have "sanitizeStyleVMD [LF] NoFault
     [(''style.vmd'', Text ''mol new x\<newline>  axes off\<newline>   mol delrep 0 top\<newline>end'' :: nat content)] ''style.vmd'' =
     (None, [(''style.vmd'', Text ''  axes off\<newline>end'')])"
    by (simp add: t write_file_def)
  with m c show ?thesis by blast
qed

text \<open>
  The claim as it was stated fails on a line ending in \<open>\r\n\<close>: its trimmed text \<open>a\<close> starts
  with no banned prefix, yet with line separator \<open>\n\<close> it is written back as \<open>a\n\<close>.
\<close>

theorem sanitizeStyleVMD_crlf_counterexample:
  "\<not> banned [CHR ''a'', CHR 0x0D, CHR 0x0A] \<and>
   sanitizeStyleVMD [CHR 0x0A] NoFault
     [(''style.vmd'', Text [CHR ''a'', CHR 0x0D, CHR 0x0A] :: nat content)] ''style.vmd'' =
     (None, [(''style.vmd'', Text [CHR ''a'', CHR 0x0A])])"
proof -
  have b: "\<not> banned [CHR ''a'', CHR 0x0D, CHR 0x0A]"
    by code_simp
  have m: "map_of [(''style.vmd'', Text [CHR ''a'', CHR 0x0D, CHR 0x0A] :: nat content)] ''style.vmd'' =
             Some (Text [CHR ''a'', CHR 0x0D, CHR 0x0A])"
    by simp
  have l: "[CHR ''a'', CHR 0x0A] = translate_newlines [CHR 0x0A]
             (concat (sanitize_loop (readlines (universal_newlines [CHR ''a'', CHR 0x0D, CHR 0x0A])) []))"
    by code_simp
  show ?thesis
    using b sanitizeStyleVMD_unfold(1)[OF m l] by (simp add: write_file_def)
qed

text \<open>
  Claim C7 (as amended). Where the line separator is \<open>\n\<close> or \<open>\r\n\<close>, sanitizing twice
  leaves the directory as sanitizing once does. Sanitizing a file without banned lines
  writes back its text with the line terminators normalised by text-mode I/O; this is the
  original content when the file contains no carriage return and the separator is \<open>\n\<close>.
\<close>

theorem sanitizeStyleVMD_idempotent:
  "(linesep = [LF] \<or> linesep = [CR, LF] \<longrightarrow>
      sanitizeStyleVMD linesep NoFault (snd (sanitizeStyleVMD linesep NoFault d style_path)) style_path =
        sanitizeStyleVMD linesep NoFault d style_path) \<and>
   (map_of d style_path = Some (Text bytes) \<and>
    \<not> list_ex banned (readlines (universal_newlines bytes)) \<longrightarrow>
      sanitizeStyleVMD linesep NoFault d style_path =
        (None, write_file style_path (Text (translate_newlines linesep (universal_newlines bytes))) d)) \<and>
   (map_of d style_path = Some (Text bytes) \<and>
    \<not> list_ex banned (readlines bytes) \<and> CR \<notin> set bytes \<and> linesep = [LF] \<longrightarrow>
      sanitizeStyleVMD linesep NoFault d style_path = (None, write_file style_path (Text bytes) d))"
proof (intro conjI impI)
  assume ls: "linesep = [LF] \<or> linesep = [CR, LF]"
  show "sanitizeStyleVMD linesep NoFault (snd (sanitizeStyleVMD linesep NoFault d style_path)) style_path =
        sanitizeStyleVMD linesep NoFault d style_path"
  proof (cases "map_of d style_path")
    case None
    then show ?thesis by (simp add: sanitizeStyleVMD_def)
  next
    case (Some c)
    show ?thesis
    proof (cases c)
      case (Text bytes)
      define kept where "kept = filter (\<lambda>line. \<not> banned line) (readlines (universal_newlines bytes))"
      define out where "out = translate_newlines linesep (concat kept)"
      have first: "sanitizeStyleVMD linesep NoFault d style_path = (None, write_file style_path (Text out) d)"
        using sanitizeStyleVMD_NoFault[of d style_path bytes linesep] Some Text
        by (simp add: kept_def out_def)
      have look: "map_of (write_file style_path (Text out) d) style_path = Some (Text out)"
        by (simp add: map_of_write_file)
      have nocr: "CR \<notin> set (concat kept)"
        unfolding kept_def by (rule no_CR_cleaned)
      have rt: "universal_newlines out = concat kept"
        unfolding out_def using ls nocr by (rule universal_translate)
      have rl: "readlines (concat kept) = kept"
        unfolding kept_def by (rule readlines_concat) (simp add: well_lined_filter well_lined_readlines)
      have again: "filter (\<lambda>line. \<not> banned line) kept = kept"
        by (simp add: kept_def)
      have "sanitizeStyleVMD linesep NoFault (write_file style_path (Text out) d) style_path =
              (None, write_file style_path (Text (translate_newlines linesep (concat kept)))
                       (write_file style_path (Text out) d))"
        using sanitizeStyleVMD_NoFault[OF look, of linesep]
        by (simp add: rt rl again)
      then show ?thesis
        by (simp add: first write_file_twice out_def)
    qed (simp_all add: sanitizeStyleVMD_def Some)
  qed
next
  assume a: "map_of d style_path = Some (Text bytes) \<and>
    \<not> list_ex banned (readlines (universal_newlines bytes))"
  then have "filter (\<lambda>line. \<not> banned line) (readlines (universal_newlines bytes)) =
             readlines (universal_newlines bytes)"
    by (simp add: list_ex_iff)
  then show "sanitizeStyleVMD linesep NoFault d style_path =
        (None, write_file style_path (Text (translate_newlines linesep (universal_newlines bytes))) d)"
    using a sanitizeStyleVMD_NoFault[of d style_path bytes linesep]
    by (simp add: concat_readlines)
next
  assume a: "map_of d style_path = Some (Text bytes) \<and>
    \<not> list_ex banned (readlines bytes) \<and> CR \<notin> set bytes \<and> linesep = [LF]"
  then have "filter (\<lambda>line. \<not> banned line) (readlines bytes) = readlines bytes"
    by (simp add: list_ex_iff)
  then show "sanitizeStyleVMD linesep NoFault d style_path = (None, write_file style_path (Text bytes) d)"
    using a sanitizeStyleVMD_NoFault[of d style_path bytes linesep]
    by (simp add: concat_readlines universal_newlines_id translate_newlines_LF)
qed

theorem sanitizeStyleVMD_idempotent_witness:
  "([LF] = [LF] \<or> [LF] = [CR, LF]) \<and>
   sanitizeStyleVMD [LF] NoFault
     (snd (sanitizeStyleVMD [LF] NoFault [(''style.vmd'', Text ''mol new x\<newline>axes off\<newline>'' :: nat content)] ''style.vmd''))
     ''style.vmd'' =
   sanitizeStyleVMD [LF] NoFault [(''style.vmd'', Text ''mol new x\<newline>axes off\<newline>'' :: nat content)] ''style.vmd'' \<and>
   map_of [(''style.vmd'', Text ''axes off\<newline>'' :: nat content)] ''style.vmd'' = Some (Text ''axes off\<newline>'') \<and>
   \<not> list_ex banned (readlines ''axes off\<newline>'') \<and>
   CR \<notin> set ''axes off\<newline>'' \<and>
   sanitizeStyleVMD [LF] NoFault [(''style.vmd'', Text ''axes off\<newline>'' :: nat content)] ''style.vmd'' =
     (None, [(''style.vmd'', Text ''axes off\<newline>'')])"
proof -
  have m: "map_of [(''style.vmd'', Text ''axes off\<newline>'' :: nat content)] ''style.vmd'' = Some (Text ''axes off\<newline>'')"
    by simp
  have b: "\<not> list_ex banned (readlines ''axes off\<newline>'')"
    by code_simp
  have c: "CR \<notin> set ''axes off\<newline>''"
    by (simp add: CR_def)
  have l: "[LF] = [LF] \<or> [LF] = [CR, LF]"
    by simp
  have 1: "sanitizeStyleVMD [LF] NoFault
     (snd (sanitizeStyleVMD [LF] NoFault [(''style.vmd'', Text ''mol new x\<newline>axes off\<newline>'' :: nat content)] ''style.vmd''))
     ''style.vmd'' =
   sanitizeStyleVMD [LF] NoFault [(''style.vmd'', Text ''mol new x\<newline>axes off\<newline>'' :: nat content)] ''style.vmd''"
    using sanitizeStyleVMD_idempotent[THEN conjunct1, rule_format, OF l] .
  have "sanitizeStyleVMD [LF] NoFault [(''style.vmd'', Text ''axes off\<newline>'' :: nat content)] ''style.vmd'' =
     (None, write_file ''style.vmd'' (Text ''axes off\<newline>'') [(''style.vmd'', Text ''axes off\<newline>'')])"
    using sanitizeStyleVMD_idempotent[THEN conjunct2, THEN conjunct2, rule_format, of _ _ "''axes off\<newline>''" "[LF]"] m b c
    by blast
  then have 2: "sanitizeStyleVMD [LF] NoFault [(''style.vmd'', Text ''axes off\<newline>'' :: nat content)] ''style.vmd'' =
     (None, [(''style.vmd'', Text ''axes off\<newline>'')])"
    by (simp add: write_file_def)
  show ?thesis using 1 2 m b c l by blast
qed

text \<open>
  The claim as it was stated fails on a file without banned lines that contains a
  carriage return: with line separator \<open>\n\<close> the content \<open>a\rb\<close> becomes \<open>a\nb\<close>.
\<close>

theorem sanitizeStyleVMD_noop_counterexample:
  "\<not> list_ex banned (readlines [CHR ''a'', CHR 0x0D, CHR ''b'']) \<and>
   sanitizeStyleVMD [CHR 0x0A] NoFault
     [(''style.vmd'', Text [CHR ''a'', CHR 0x0D, CHR ''b''] :: nat content)] ''style.vmd'' =
     (None, [(''style.vmd'', Text [CHR ''a'', CHR 0x0A, CHR ''b''])])"
proof -
  have b: "\<not> list_ex banned (readlines [CHR ''a'', CHR 0x0D, CHR ''b''])"
    by code_simp
  have m: "map_of [(''style.vmd'', Text [CHR ''a'', CHR 0x0D, CHR ''b''] :: nat content)] ''style.vmd'' =
             Some (Text [CHR ''a'', CHR 0x0D, CHR ''b''])"
    by simp
  have l: "[CHR ''a'', CHR 0x0A, CHR ''b''] = translate_newlines [CHR 0x0A]
             (concat (sanitize_loop (readlines (universal_newlines [CHR ''a'', CHR 0x0D, CHR ''b''])) []))"
    by code_simp
  have "sanitizeStyleVMD [CHR 0x0A] NoFault
     [(''style.vmd'', Text [CHR ''a'', CHR 0x0D, CHR ''b''] :: nat content)] ''style.vmd'' =
     (None, [(''style.vmd'', Text [CHR ''a'', CHR 0x0A, CHR ''b''])])"
    using sanitizeStyleVMD_unfold(1)[OF m l] by (simp add: write_file_def)
  with b show ?thesis by blast
qed

text \<open>
  Claim C9 (as amended). An I/O failure leaves the style file in one of three states,
  according to where it occurs. When reading the file fails, or when opening it for
  writing fails after it has been read, the file is unchanged. When writing fails after
  \<open>k\<close> characters, the file holds the first \<open>k\<close> characters of the sanitized content and
  nothing else, which for \<open>k\<close> below the length of the sanitized content is not the
  sanitized content: the file is opened for writing in place, which empties it first, and
  there is no temporary file and no atomic replacement. Without a failure the file holds
  the sanitized content.
\<close>

theorem sanitizeStyleVMD_faults:
  assumes "map_of d style_path = Some (Text bytes)"
    and "out = translate_newlines linesep
                 (concat (filter (\<lambda>line. \<not> banned line) (readlines (universal_newlines bytes))))"
  shows "sanitizeStyleVMD linesep NoFault d style_path = (None, write_file style_path (Text out) d) \<and>
         sanitizeStyleVMD linesep ReadFault d style_path = (Some OSError, d) \<and>
         sanitizeStyleVMD linesep OpenWriteFault d style_path = (Some OSError, d) \<and>
         sanitizeStyleVMD linesep (WriteFault k) d style_path =
           (Some OSError, write_file style_path (Text (take k out)) d) \<and>
         map_of (snd (sanitizeStyleVMD linesep (WriteFault k) d style_path)) style_path =
           Some (Text (take k out)) \<and>
         (k < length out \<longrightarrow> take k out \<noteq> out)"
proof -
  let ?cleaned = "sanitize_loop (readlines (universal_newlines bytes)) []"
  have o: "out = translate_newlines linesep (concat ?cleaned)"
    using assms(2) by (simp add: sanitize_loop_filter)
  have n: "sanitizeStyleVMD linesep NoFault d style_path = (None, write_file style_path (Text out) d)"
    using assms by (simp add: sanitizeStyleVMD_NoFault)
  have r: "sanitizeStyleVMD linesep ReadFault d style_path = (Some OSError, d)"
    using assms(1) by (simp add: sanitizeStyleVMD_def)
  have w: "sanitizeStyleVMD linesep OpenWriteFault d style_path = (Some OSError, d)"
    using assms(1) by (simp add: sanitizeStyleVMD_def)
  have "writelines linesep (Some k) ?cleaned [] = (True, take k out)"
    unfolding o by (simp add: writelines_Some)
  then have f: "sanitizeStyleVMD linesep (WriteFault k) d style_path =
           (Some OSError, write_file style_path (Text (take k out)) d)"
    using assms(1) by (simp add: sanitizeStyleVMD_def)
  have m: "map_of (snd (sanitizeStyleVMD linesep (WriteFault k) d style_path)) style_path =
           Some (Text (take k out))"
    unfolding f by (simp add: map_of_write_file)
  have p: "k < length out \<longrightarrow> take k out \<noteq> out"
  proof
    assume "k < length out"
    then have "length (take k out) \<noteq> length out" by simp
    then show "take k out \<noteq> out" by metis
  qed
  show ?thesis using n r w f m p by blast
qed

theorem sanitizeStyleVMD_faults_witness:
  "map_of [(''style.vmd'', Text ''mol new x\<newline>axes off\<newline>'' :: nat content)] ''style.vmd'' =
     Some (Text ''mol new x\<newline>axes off\<newline>'') \<and>
   sanitizeStyleVMD [LF] ReadFault [(''style.vmd'', Text ''mol new x\<newline>axes off\<newline>'' :: nat content)] ''style.vmd'' =
     (Some OSError, [(''style.vmd'', Text ''mol new x\<newline>axes off\<newline>'')]) \<and>
   sanitizeStyleVMD [LF] OpenWriteFault [(''style.vmd'', Text ''mol new x\<newline>axes off\<newline>'' :: nat content)] ''style.vmd'' =
     (Some OSError, [(''style.vmd'', Text ''mol new x\<newline>axes off\<newline>'')]) \<and>
   sanitizeStyleVMD [LF] (WriteFault 3) [(''style.vmd'', Text ''mol new x\<newline>axes off\<newline>'' :: nat content)] ''style.vmd'' =
     (Some OSError, [(''style.vmd'', Text ''axe'')]) \<and>
   3 < length ''axes off\<newline>'' \<and>
   take 3 ''axes off\<newline>'' \<noteq> ''axes off\<newline>''"
proof -
  have m: "map_of [(''style.vmd'', Text ''mol new x\<newline>axes off\<newline>'' :: nat content)] ''style.vmd'' =
     Some (Text ''mol new x\<newline>axes off\<newline>'')"
    by simp
  have l: "''axes off\<newline>'' = translate_newlines [LF]
             (concat (filter (\<lambda>line. \<not> banned line) (readlines (universal_newlines ''mol new x\<newline>axes off\<newline>''))))"
    by code_simp
  have k: "3 < length ''axes off\<newline>''"
    by simp
  have r: "sanitizeStyleVMD [LF] ReadFault [(''style.vmd'', Text ''mol new x\<newline>axes off\<newline>'' :: nat content)] ''style.vmd'' =
     (Some OSError, [(''style.vmd'', Text ''mol new x\<newline>axes off\<newline>'')])"
    using sanitizeStyleVMD_faults[OF m l, of 3] by blast
  have o: "sanitizeStyleVMD [LF] OpenWriteFault [(''style.vmd'', Text ''mol new x\<newline>axes off\<newline>'' :: nat content)] ''style.vmd'' =
     (Some OSError, [(''style.vmd'', Text ''mol new x\<newline>axes off\<newline>'')])"
    using sanitizeStyleVMD_faults[OF m l, of 3] by blast
  have "sanitizeStyleVMD [LF] (WriteFault 3) [(''style.vmd'', Text ''mol new x\<newline>axes off\<newline>'' :: nat content)] ''style.vmd'' =
     (Some OSError, write_file ''style.vmd'' (Text (take 3 ''axes off\<newline>''))
        [(''style.vmd'', Text ''mol new x\<newline>axes off\<newline>'')])"
    using sanitizeStyleVMD_faults[OF m l, of 3] by blast
  then have w: "sanitizeStyleVMD [LF] (WriteFault 3) [(''style.vmd'', Text ''mol new x\<newline>axes off\<newline>'' :: nat content)] ''style.vmd'' =
     (Some OSError, [(''style.vmd'', Text ''axe'')])"
    by (simp add: write_file_def)
  have p: "take 3 ''axes off\<newline>'' \<noteq> ''axes off\<newline>''"
    using sanitizeStyleVMD_faults[OF m l, of 3] k by blast
  show ?thesis using m r o w k p by blast
qed

text \<open>
  The claim as it was stated fails: a write that fails after two characters leaves
  \<open>ax\<close> in the file, which is neither the original nor the sanitized content.
\<close>

theorem sanitizeStyleVMD_partial_write_counterexample:
  "sanitizeStyleVMD [CHR 0x0A] NoFault
     [(''style.vmd'', Text ''mol new x\<newline>axes off\<newline>'' :: nat content)] ''style.vmd'' =
     (None, [(''style.vmd'', Text ''axes off\<newline>'')]) \<and>
   sanitizeStyleVMD [CHR 0x0A] (WriteFault 2)
     [(''style.vmd'', Text ''mol new x\<newline>axes off\<newline>'' :: nat content)] ''style.vmd'' =
     (Some OSError, [(''style.vmd'', Text ''ax'')])"
proof -
  have m: "map_of [(''style.vmd'', Text ''mol new x\<newline>axes off\<newline>'' :: nat content)] ''style.vmd'' =
     Some (Text ''mol new x\<newline>axes off\<newline>'')"
    by simp
  have l: "''axes off\<newline>'' = translate_newlines [CHR 0x0A]
             (concat (sanitize_loop (readlines (universal_newlines ''mol new x\<newline>axes off\<newline>'')) []))"
    by code_simp
  have 1: "sanitizeStyleVMD [CHR 0x0A] NoFault
     [(''style.vmd'', Text ''mol new x\<newline>axes off\<newline>'' :: nat content)] ''style.vmd'' =
     (None, [(''style.vmd'', Text ''axes off\<newline>'')])"
    using sanitizeStyleVMD_unfold(1)[OF m l] by (simp add: write_file_def)
  have 2: "sanitizeStyleVMD [CHR 0x0A] (WriteFault 2)
     [(''style.vmd'', Text ''mol new x\<newline>axes off\<newline>'' :: nat content)] ''style.vmd'' =
     (Some OSError, [(''style.vmd'', Text ''ax'')])"
    using sanitizeStyleVMD_unfold(2)[OF m l, of 2] by (simp add: write_file_def)
  show ?thesis using 1 2 by blast
qed

section \<open>Properties of the render script\<close>

lemma write_files_eq:
  "write_files xyzs buf = buf @ concat (map (\<lambda>file. ''    '' @ file @ ''\<newline>'') xyzs)"
  by (induction xyzs arbitrary: buf) simp_all

lemma split_words_word:
  "\<not> list_ex tcl_space w \<Longrightarrow> tcl_space c \<Longrightarrow>
   split_words cur (w @ c # rest) =
     (if cur @ w = [] then split_words [] rest else (cur @ w) # split_words [] rest)"
  by (induction w arbitrary: cur) auto

lemma tcl_space_blank: "tcl_space (CHR '' '')" "tcl_space (CHR ''\<newline>'')"
  by (simp_all add: tcl_space_def)

lemma split_words_line:
  assumes "f \<noteq> []" "\<not> list_ex tcl_space f"
  shows "split_words [] (''    '' @ f @ ''\<newline>'' @ rest) = f # split_words [] rest"
proof -
  have "split_words [] (f @ CHR ''\<newline>'' # rest) = f # split_words [] rest"
    using split_words_word[OF assms(2) tcl_space_blank(2), of "[]" rest] assms(1) by simp
  then show ?thesis
    by (simp add: tcl_space_blank)
qed

lemma split_words_lines:
  "\<forall>f \<in> set xyzs. f \<noteq> [] \<and> \<not> list_ex tcl_space f \<Longrightarrow>
   split_words [] (concat (map (\<lambda>file. ''    '' @ file @ ''\<newline>'') xyzs)) = xyzs"
proof (induction xyzs)
  case Nil
  then show ?case by simp
next
  case (Cons f xyzs)
  then have f: "f \<noteq> []" "\<not> list_ex tcl_space f" by simp_all
  have "split_words [] (''    '' @ f @ ''\<newline>'' @ concat (map (\<lambda>file. ''    '' @ file @ ''\<newline>'') xyzs)) =
        f # split_words [] (concat (map (\<lambda>file. ''    '' @ file @ ''\<newline>'') xyzs))"
    by (rule split_words_line[OF f])
  then show ?case using Cons by simp
qed

lemma tcl_special_blank: "\<not> tcl_special (CHR '' '')" "\<not> tcl_special (CHR ''\<newline>'')"
  by (simp_all add: tcl_special_def)

lemma no_special_lines:
  "\<forall>f \<in> set xyzs. \<not> list_ex tcl_special f \<Longrightarrow>
   \<not> list_ex tcl_special (concat (map (\<lambda>file. ''    '' @ file @ ''\<newline>'') xyzs))"
  by (induction xyzs) (auto simp: list_ex_iff tcl_special_blank)

lemma tcl_list_files_text:
  assumes "\<forall>f \<in> set xyzs. f \<noteq> [] \<and> \<not> list_ex tcl_space f \<and> \<not> list_ex tcl_special f"
  shows "tcl_list (files_text xyzs) = Some xyzs"
proof -
  have t: "files_text xyzs = CHR ''\<newline>'' # concat (map (\<lambda>file. ''    '' @ file @ ''\<newline>'') xyzs)"
    by (simp add: files_text_def write_files_eq)
  have "\<not> list_ex tcl_special (files_text xyzs)"
    unfolding t using no_special_lines[of xyzs] assms by (simp add: tcl_special_blank)
  moreover have "split_words [] (files_text xyzs) = xyzs"
    unfolding t using split_words_lines[of xyzs] assms by (simp add: tcl_space_blank)
  ultimately show ?thesis by (simp add: tcl_list_def)
qed

lemma renders_foreach_files:
  "renders (foreach_files i files) =
     map (\<lambda>k. ''frame_'' @ format_0d 2 k @ ''.tga'') [i ..< i + length files]"
proof (induction files arbitrary: i)
  case Nil
  then show ?case by (simp add: renders_def List.map_filter_simps)
next
  case (Cons f files)
  have "renders (foreach_files i (f # files)) =
        (''frame_'' @ format_0d 2 i @ ''.tga'') # renders (foreach_files (Suc i) files)"
    by (simp add: renders_def List.map_filter_simps Let_def)
  then show ?case
    by (simp add: Cons.IH upt_conv_Cons del: upt_Suc)
qed

lemma loads_foreach_files: "loads (foreach_files i files) = files"
proof (induction files arbitrary: i)
  case Nil
  then show ?case by (simp add: loads_def List.map_filter_simps)
next
  case (Cons f files)
  have "loads (foreach_files i (f # files)) = f # loads (foreach_files (Suc i) files)"
    by (simp add: loads_def List.map_filter_simps Let_def)
  then show ?case by (simp add: Cons.IH)
qed

lemma map_filter_append: "List.map_filter g (xs @ ys) = List.map_filter g xs @ List.map_filter g ys"
  by (simp add: List.map_filter_def)

lemma renders_run:
  "renders (preamble_commands @ cmds @ [[''quit'']]) = renders cmds"
  by (simp add: renders_def map_filter_append preamble_commands_def List.map_filter_simps)

lemma loads_run:
  "loads (preamble_commands @ cmds @ [[''quit'']]) = loads cmds"
  by (simp add: loads_def map_filter_append preamble_commands_def List.map_filter_simps)

lemma length_str_nat_small: "n < 100 \<Longrightarrow> length (str_nat n) \<le> 2"
proof -
  assume n: "n < 100"
  show ?thesis
  proof (cases "n < 10")
    case True
    then show ?thesis by (subst str_nat.simps) simp
  next
    case False
    with n have "n div 10 < 10" by simp
    then have "str_nat (n div 10) = [digit_char (n div 10)]"
      by (subst str_nat.simps) simp
    with False show ?thesis by (subst str_nat.simps) simp
  qed
qed

lemma length_format_0d_2: "n < 100 \<Longrightarrow> length (format_0d 2 n) = 2"
  using length_str_nat_small[of n] by (simp add: format_0d_def)

lemma render_tcl_eq:
  "render_tcl xyzs = preamble @ ''set files {'' @ files_text xyzs @ ''}\<newline>'' @ loop_script"
  by (simp add: render_tcl_def files_text_def write_files_eq)

lemma distinct_frames:
  "distinct (map (\<lambda>i. ''frame_'' @ format_0d 2 i @ ''.tga'') [0..<n])"
  by (auto simp: distinct_map intro!: inj_onI dest: format_0d_inj)

text \<open>
  Claim C3 (as amended). For every ordered list of input frame file names that are
  non-empty and contain no white space, brace, double quote or backslash, the script
  written to \<open>render.tcl\<close> holds the names between the braces of \<open>set files\<close>, and its
  loop loads exactly the input names, in input order, and renders once per name: the
  \<open>i\<close>-th name is rendered to \<open>frame_\<close>, the position \<open>i\<close> zero-padded to at least two
  digits (exactly two below 100), \<open>.tga\<close>. The output names are pairwise distinct and depend
  on the position only, not on digits in the file names.
\<close>

theorem render_script_one_render_per_file:
  assumes "\<forall>f \<in> set xyzs. f \<noteq> [] \<and> \<not> list_ex tcl_space f \<and> \<not> list_ex tcl_special f"
  shows "createVMDRenderScript linesep tmpdir xyzs =
           (''render.tcl'',
            write_file ''render.tcl''
              (Text (translate_newlines linesep
                 (preamble @ ''set files {'' @ files_text xyzs @ ''}\<newline>'' @ loop_script))) tmpdir) \<and>
         run_render_tcl xyzs = Some (preamble_commands @ foreach_files 0 xyzs @ [[''quit'']]) \<and>
         loads (preamble_commands @ foreach_files 0 xyzs @ [[''quit'']]) = xyzs \<and>
         renders (preamble_commands @ foreach_files 0 xyzs @ [[''quit'']]) =
           map (\<lambda>i. ''frame_'' @ format_0d 2 i @ ''.tga'') [0..<length xyzs] \<and>
         distinct (map (\<lambda>i. ''frame_'' @ format_0d 2 i @ ''.tga'') [0..<length xyzs]) \<and>
         (\<forall>i<100. length (format_0d 2 i) = 2)"
proof -
  have 1: "createVMDRenderScript linesep tmpdir xyzs =
           (''render.tcl'',
            write_file ''render.tcl''
              (Text (translate_newlines linesep
                 (preamble @ ''set files {'' @ files_text xyzs @ ''}\<newline>'' @ loop_script))) tmpdir)"
    by (simp only: createVMDRenderScript_def render_tcl_eq)
  have 2: "run_render_tcl xyzs = Some (preamble_commands @ foreach_files 0 xyzs @ [[''quit'']])"
    by (simp add: run_render_tcl_def tcl_list_files_text[OF assms])
  have 3: "loads (preamble_commands @ foreach_files 0 xyzs @ [[''quit'']]) = xyzs"
    by (simp only: loads_run loads_foreach_files)
  have 4: "renders (preamble_commands @ foreach_files 0 xyzs @ [[''quit'']]) =
           map (\<lambda>i. ''frame_'' @ format_0d 2 i @ ''.tga'') [0..<length xyzs]"
    using renders_foreach_files[of 0 xyzs] by (simp only: renders_run add_0)
  have 5: "\<forall>i<100. length (format_0d 2 i) = 2"
    by (simp add: length_format_0d_2)
  show ?thesis
    using 1 2 3 4 5 distinct_frames[of "length xyzs"] by blast
qed

theorem render_script_one_render_per_file_witness:
  "\<not> list_ex tcl_space ''image_000.xyz'' \<and> \<not> list_ex tcl_special ''image_000.xyz'' \<and>
   \<not> list_ex tcl_space ''image_001.xyz'' \<and> \<not> list_ex tcl_special ''image_001.xyz'' \<and>
   map_option loads (run_render_tcl [''image_000.xyz'', ''image_001.xyz'']) =
     Some [''image_000.xyz'', ''image_001.xyz''] \<and>
   map_option renders (run_render_tcl [''image_000.xyz'', ''image_001.xyz'']) =
     Some [''frame_00.tga'', ''frame_01.tga'']"
proof -
  have h: "\<forall>f \<in> set [''image_000.xyz'', ''image_001.xyz''].
      f \<noteq> [] \<and> \<not> list_ex tcl_space f \<and> \<not> list_ex tcl_special f"
    by code_simp
  have n: "map (\<lambda>i. ''frame_'' @ format_0d 2 i @ ''.tga'') [0..<length [''image_000.xyz'', ''image_001.xyz'']] =
           [''frame_00.tga'', ''frame_01.tga'']"
    by code_simp
  note t = render_script_one_render_per_file[OF h, of "[]" "[]"]
  have r: "run_render_tcl [''image_000.xyz'', ''image_001.xyz''] =
      Some (preamble_commands @ foreach_files 0 [''image_000.xyz'', ''image_001.xyz''] @ [[''quit'']])"
    using t by blast
  have l: "loads (preamble_commands @ foreach_files 0 [''image_000.xyz'', ''image_001.xyz''] @ [[''quit'']]) =
      [''image_000.xyz'', ''image_001.xyz'']"
    using t by blast
  have o: "renders (preamble_commands @ foreach_files 0 [''image_000.xyz'', ''image_001.xyz''] @ [[''quit'']]) =
      [''frame_00.tga'', ''frame_01.tga'']"
    using t unfolding n by blast
  have e: "\<not> list_ex tcl_space ''image_000.xyz''" "\<not> list_ex tcl_special ''image_000.xyz''"
    "\<not> list_ex tcl_space ''image_001.xyz''" "\<not> list_ex tcl_special ''image_001.xyz''"
    by code_simp+
  show ?thesis
    unfolding r l o option.map using e by blast
qed

text \<open>
  The claim as it was stated fails for a file name with a blank: Tcl reads the text
  between the braces as a list, so the single name \<open>a b.xyz\<close> is two elements and the
  loop renders twice.
\<close>

theorem render_script_blank_in_name_counterexample:
  "map_option loads (run_render_tcl [''a b.xyz'']) = Some [''a'', ''b.xyz''] \<and>
   map_option renders (run_render_tcl [''a b.xyz'']) = Some [''frame_00.tga'', ''frame_01.tga'']"
  by code_simp


section \<open>Properties of the energy profile synthesizer\<close>



























section \<open>Properties of the image post-processor\<close>






































end
